theory Spec2Isabelle
  imports Complex_Main "HOL-Library.Word"
begin

unbundle bit_operations_syntax

section \<open>The utilities of libmetal: \<^verbatim>\<open>lib/utilities.h\<close>\<close>

text \<open>
  The header works on three C integer types. \<^verbatim>\<open>int\<close> and \<^verbatim>\<open>unsigned int\<close> are 32 bits
  wide on every platform libmetal is built for; \<^verbatim>\<open>unsigned long\<close> is 32 bits wide under
  ILP32 and 64 bits wide under LP64. The width of \<^verbatim>\<open>unsigned long\<close> is the type
  parameter \<open>'w\<close> of the model, and \<^verbatim>\<open>size_t\<close> (the type of \<^verbatim>\<open>sizeof\<close>) has that width
  too. A conversion between integer types keeps the value modulo the width of the target:
  \<open>ucast\<close> from an unsigned source, \<open>scast\<close> (sign extension) from \<^verbatim>\<open>int\<close>. For an
  unsigned target this is the rule of the C standard; for a signed target that cannot
  hold the value the standard leaves the result to the implementation, and GCC and
  Clang, which build libmetal, define it so.

  A bitmap is caller-owned storage, \<^verbatim>\<open>unsigned long *bitmap\<close>: the list of its words.
  An access outside the list has no defined behaviour in C; the model returns the fault
  \<open>Out_Of_Storage\<close> there.
\<close>

type_synonym c_int = "32 word"
type_synonym c_uint = "32 word"

datatype fault = Out_Of_Storage | Shift_Out_Of_Range | Assertion_Failed

subsection \<open>Division macros and the word count\<close>

definition sizeof_ulong :: "'w::len word" where
  "sizeof_ulong = of_nat (LENGTH('w) div 8)"

definition METAL_BITS_PER_ULONG :: "'w::len word" where
  "METAL_BITS_PER_ULONG = 8 * sizeof_ulong"

definition metal_div_round_down :: "'w::len word \<Rightarrow> 'w word \<Rightarrow> 'w word" where
  "metal_div_round_down num den = num div den"

definition metal_div_round_up :: "'w::len word \<Rightarrow> 'w word \<Rightarrow> 'w word" where
  "metal_div_round_up num den = metal_div_round_down (num + den - 1) den"

definition metal_bitmap_longs :: "'w::len word \<Rightarrow> 'w word" where
  "metal_bitmap_longs x = metal_div_round_up x METAL_BITS_PER_ULONG"

subsection \<open>Single bits\<close>

text \<open>
  \<^verbatim>\<open>metal_bit(bit)\<close> is \<^verbatim>\<open>1UL << bit\<close>. Every use in the header passes
  \<^verbatim>\<open>bit & (METAL_BITS_PER_ULONG - 1)\<close>, which is below the width of the word, so the
  shift is always defined.
\<close>

definition metal_bit :: "'w::len word \<Rightarrow> 'w word" where
  "metal_bit b = push_bit (unat b) 1"

text \<open>
  \<^verbatim>\<open>bit / METAL_BITS_PER_ULONG\<close>, the index of the word of a bit, and
  \<^verbatim>\<open>metal_bit(bit & (METAL_BITS_PER_ULONG - 1))\<close>, its mask in that word: the \<^verbatim>\<open>int\<close> is
  converted to the unsigned type of the other operand first. The bitmap is an argument
  of both for the width of its words only. A bit is in the storage when its word is.
\<close>

definition word_of_bit :: "'w::len word list \<Rightarrow> c_int \<Rightarrow> nat" where
  "word_of_bit bitmap b = unat ((scast b :: 'w word) div METAL_BITS_PER_ULONG)"

definition mask_of_bit :: "'w::len word list \<Rightarrow> c_int \<Rightarrow> 'w word" where
  "mask_of_bit bitmap b = metal_bit ((scast b :: 'w word) AND (METAL_BITS_PER_ULONG - 1))"

definition in_storage :: "'w::len word list \<Rightarrow> c_int \<Rightarrow> bool" where
  "in_storage bitmap b = (word_of_bit bitmap b < length bitmap)"

text \<open>
  The data model of the specification, to compare the functions with: bit \<open>n\<close> of a
  bitmap resides in word \<open>n div W\<close>, at position \<open>n mod W\<close> of that word. \<open>stored_bit\<close>
  reads the storage itself and calls none of the functions of the header.
\<close>

definition stored_bit :: "'w::len word list \<Rightarrow> nat \<Rightarrow> bool" where
  "stored_bit bitmap n =
     (n div LENGTH('w) < length bitmap \<and> bit (bitmap ! (n div LENGTH('w))) (n mod LENGTH('w)))"

definition metal_bitmap_set_bit :: "'w::len word list \<Rightarrow> c_int \<Rightarrow> fault + 'w word list" where
  "metal_bitmap_set_bit bitmap b =
     (if in_storage bitmap b
      then Inr (bitmap[word_of_bit bitmap b :=
                  (bitmap ! word_of_bit bitmap b) OR mask_of_bit bitmap b])
      else Inl Out_Of_Storage)"

text \<open>
  The function returns \<^verbatim>\<open>int\<close>, the expression it returns is an \<^verbatim>\<open>unsigned long\<close>:
  the value is converted, and keeps its low 32 bits.
\<close>

definition metal_bitmap_is_bit_set :: "'w::len word list \<Rightarrow> c_int \<Rightarrow> fault + c_int" where
  "metal_bitmap_is_bit_set bitmap b =
     (if in_storage bitmap b
      then Inr (ucast ((bitmap ! word_of_bit bitmap b) AND mask_of_bit bitmap b))
      else Inl Out_Of_Storage)"

definition metal_bitmap_clear_bit :: "'w::len word list \<Rightarrow> c_int \<Rightarrow> fault + 'w word list" where
  "metal_bitmap_clear_bit bitmap b =
     (if in_storage bitmap b
      then Inr (bitmap[word_of_bit bitmap b :=
                  (bitmap ! word_of_bit bitmap b) AND NOT (mask_of_bit bitmap b)])
      else Inl Out_Of_Storage)"

definition metal_bitmap_is_bit_clear :: "'w::len word list \<Rightarrow> c_int \<Rightarrow> fault + c_int" where
  "metal_bitmap_is_bit_clear bitmap b =
     (case metal_bitmap_is_bit_set bitmap b of
        Inl e \<Rightarrow> Inl e
      | Inr v \<Rightarrow> Inr (if v = 0 then 1 else 0))"

text \<open>A C condition holds when the \<^verbatim>\<open>int\<close> is not zero.\<close>

definition is_set :: "'w::len word list \<Rightarrow> c_int \<Rightarrow> bool" where
  "is_set bitmap b = (case metal_bitmap_is_bit_set bitmap b of Inl e \<Rightarrow> False | Inr v \<Rightarrow> v \<noteq> 0)"

definition is_clear :: "'w::len word list \<Rightarrow> c_int \<Rightarrow> bool" where
  "is_clear bitmap b = (case metal_bitmap_is_bit_clear bitmap b of Inl e \<Rightarrow> False | Inr v \<Rightarrow> v \<noteq> 0)"

subsection \<open>Scanning\<close>

text \<open>
  The \<^verbatim>\<open>for\<close> loop of \<^verbatim>\<open>metal_bitmap_next_set_bit\<close>, from the current value of its
  variable \<^verbatim>\<open>bit\<close>, which starts as \<^verbatim>\<open>start\<close>. The counter is an \<^verbatim>\<open>unsigned int\<close> and is
  passed to an \<^verbatim>\<open>int\<close> parameter, which keeps its 32 bits. The counter cannot wrap
  around: it is incremented only while it is below \<^verbatim>\<open>max\<close>.
\<close>

function next_set_bit_loop :: "'w::len word list \<Rightarrow> c_uint \<Rightarrow> c_uint \<Rightarrow> fault + c_uint" where
  "next_set_bit_loop bitmap b mx =
     (if b < mx then
        (case metal_bitmap_is_bit_set bitmap b of
           Inl e \<Rightarrow> Inl e
         | Inr v \<Rightarrow> if v = 0 then next_set_bit_loop bitmap (b + 1) mx else Inr b)
      else Inr b)"
  by pat_completeness auto
termination
proof (relation "measure (\<lambda>(bitmap, b, mx). unat mx - unat b)")
  show "wf (measure (\<lambda>(bitmap :: 'w word list, b :: c_uint, mx :: c_uint). unat mx - unat b))"
    by simp
next
  fix bitmap :: "'w word list" and b mx :: c_uint and v :: c_int
  assume "b < mx"
  then have "unat b < unat mx"
    by (simp add: word_less_nat_alt)
  moreover from this have "unat (b + 1) = unat b + 1"
    using unsigned_less [of mx, where 'a = nat] by (simp add: unat_word_ariths)
  ultimately show "((bitmap, b + 1, mx), (bitmap, b, mx))
      \<in> measure (\<lambda>(bitmap, b, mx). unat mx - unat b)"
    by simp
qed

declare next_set_bit_loop.simps [simp del]

definition metal_bitmap_next_set_bit :: "'w::len word list \<Rightarrow> c_uint \<Rightarrow> c_uint \<Rightarrow> fault + c_uint" where
  "metal_bitmap_next_set_bit bitmap start mx = next_set_bit_loop bitmap start mx"

function next_clear_bit_loop :: "'w::len word list \<Rightarrow> c_uint \<Rightarrow> c_uint \<Rightarrow> fault + c_uint" where
  "next_clear_bit_loop bitmap b mx =
     (if b < mx then
        (case metal_bitmap_is_bit_clear bitmap b of
           Inl e \<Rightarrow> Inl e
         | Inr v \<Rightarrow> if v = 0 then next_clear_bit_loop bitmap (b + 1) mx else Inr b)
      else Inr b)"
  by pat_completeness auto
termination
proof (relation "measure (\<lambda>(bitmap, b, mx). unat mx - unat b)")
  show "wf (measure (\<lambda>(bitmap :: 'w word list, b :: c_uint, mx :: c_uint). unat mx - unat b))"
    by simp
next
  fix bitmap :: "'w word list" and b mx :: c_uint and v :: c_int
  assume "b < mx"
  then have "unat b < unat mx"
    by (simp add: word_less_nat_alt)
  moreover from this have "unat (b + 1) = unat b + 1"
    using unsigned_less [of mx, where 'a = nat] by (simp add: unat_word_ariths)
  ultimately show "((bitmap, b + 1, mx), (bitmap, b, mx))
      \<in> measure (\<lambda>(bitmap, b, mx). unat mx - unat b)"
    by simp
qed

declare next_clear_bit_loop.simps [simp del]

definition metal_bitmap_next_clear_bit :: "'w::len word list \<Rightarrow> c_uint \<Rightarrow> c_uint \<Rightarrow> fault + c_uint" where
  "metal_bitmap_next_clear_bit bitmap start mx = next_clear_bit_loop bitmap start mx"

subsection \<open>The iteration macros\<close>

text \<open>
  \<^verbatim>\<open>metal_bitmap_for_each_set_bit(bitmap, bit, max)\<close> is the head of a \<^verbatim>\<open>for\<close> loop whose
  body the caller writes, with \<^verbatim>\<open>bit\<close> a variable of the caller: an \<^verbatim>\<open>unsigned int\<close>
  here, as the scan returns. The model runs it with a body that reads \<^verbatim>\<open>bit\<close> and changes
  neither \<^verbatim>\<open>bit\<close> nor the bitmap, and records the value of \<^verbatim>\<open>bit\<close> at each execution of
  the body. The loop may run forever, so it takes fuel: the number of executions of the
  body it is allowed. \<open>Finished\<close> is the loop left through its condition, \<open>Unfinished\<close>
  the loop stopped by the fuel with its condition still true.
\<close>

datatype iteration = Finished "c_uint list" | Unfinished "c_uint list" | Faulted fault

fun for_each_set_bit_loop ::
  "nat \<Rightarrow> 'w::len word list \<Rightarrow> c_uint \<Rightarrow> c_uint \<Rightarrow> c_uint list \<Rightarrow> iteration" where
  "for_each_set_bit_loop 0 bitmap b mx seen =
     (if b < mx then Unfinished seen else Finished seen)"
| "for_each_set_bit_loop (Suc fuel) bitmap b mx seen =
     (if b < mx then
        (case metal_bitmap_next_set_bit bitmap b mx of
           Inl e \<Rightarrow> Faulted e
         | Inr b' \<Rightarrow> for_each_set_bit_loop fuel bitmap b' mx (seen @ [b]))
      else Finished seen)"

definition metal_bitmap_for_each_set_bit :: "nat \<Rightarrow> 'w::len word list \<Rightarrow> c_uint \<Rightarrow> iteration" where
  "metal_bitmap_for_each_set_bit fuel bitmap mx =
     (case metal_bitmap_next_set_bit bitmap 0 mx of
        Inl e \<Rightarrow> Faulted e
      | Inr b \<Rightarrow> for_each_set_bit_loop fuel bitmap b mx [])"

fun for_each_clear_bit_loop ::
  "nat \<Rightarrow> 'w::len word list \<Rightarrow> c_uint \<Rightarrow> c_uint \<Rightarrow> c_uint list \<Rightarrow> iteration" where
  "for_each_clear_bit_loop 0 bitmap b mx seen =
     (if b < mx then Unfinished seen else Finished seen)"
| "for_each_clear_bit_loop (Suc fuel) bitmap b mx seen =
     (if b < mx then
        (case metal_bitmap_next_clear_bit bitmap b mx of
           Inl e \<Rightarrow> Faulted e
         | Inr b' \<Rightarrow> for_each_clear_bit_loop fuel bitmap b' mx (seen @ [b]))
      else Finished seen)"

definition metal_bitmap_for_each_clear_bit :: "nat \<Rightarrow> 'w::len word list \<Rightarrow> c_uint \<Rightarrow> iteration" where
  "metal_bitmap_for_each_clear_bit fuel bitmap mx =
     (case metal_bitmap_next_clear_bit bitmap 0 mx of
        Inl e \<Rightarrow> Faulted e
      | Inr b \<Rightarrow> for_each_clear_bit_loop fuel bitmap b mx [])"

subsection \<open>The logarithm\<close>

text \<open>
  \<^verbatim>\<open>assert((in & (in - 1)) == 0)\<close> is compiled in unless \<^verbatim>\<open>NDEBUG\<close> is defined: the
  argument \<open>debug\<close> of the model. The loop shifts \<^verbatim>\<open>1UL\<close> by its counter; a shift by the
  width of the type or more has no defined behaviour and is the fault
  \<open>Shift_Out_Of_Range\<close>.
\<close>

definition log2_assertion :: "'w::len word \<Rightarrow> bool" where
  "log2_assertion inp = (inp AND (inp - 1) = 0)"

function log2_loop :: "'w::len word \<Rightarrow> 'w word \<Rightarrow> fault + 'w word" where
  "log2_loop inp result =
     (if LENGTH('w) \<le> unat result then Inl Shift_Out_Of_Range
      else if push_bit (unat result) 1 < inp then log2_loop inp (result + 1)
      else Inr result)"
  by pat_completeness auto
termination
proof (relation "measure (\<lambda>(inp :: 'w::len word, result :: 'w word). LENGTH('w) - unat result)")
  show "wf (measure (\<lambda>(inp :: 'w::len word, result :: 'w word). LENGTH('w) - unat result))"
    by simp
next
  fix inp result :: "'w::len word"
  assume "\<not> LENGTH('w) \<le> unat result"
  then have less: "unat result < LENGTH('w)"
    by simp
  have "LENGTH('w) < 2 ^ LENGTH('w)"
    by (rule less_exp)
  with less have "unat result + 1 < 2 ^ LENGTH('w)"
    by linarith
  then have "unat result + unat (1 :: 'w word) < 2 ^ LENGTH('w)"
    by simp
  then have "unat (result + 1) = unat result + 1"
    by (simp add: unat_add_lem [THEN iffD1])
  with less show "((inp, result + 1), (inp, result))
      \<in> measure (\<lambda>(inp :: 'w word, result :: 'w word). LENGTH('w) - unat result)"
    by simp
qed

declare log2_loop.simps [simp del]

text \<open>
  The precondition of the specification: the argument is a positive power of two. The
  powers of two an \<^verbatim>\<open>unsigned long\<close> holds are \<open>2 ^ k\<close> for \<open>k\<close> below its width.
\<close>

definition is_power_of_two :: "'w::len word \<Rightarrow> bool" where
  "is_power_of_two v = (v \<in> set (map (\<lambda>k. 2 ^ k) [0..<LENGTH('w)]))"

definition metal_log2 :: "bool \<Rightarrow> 'w::len word \<Rightarrow> fault + 'w word" where
  "metal_log2 debug inp =
     (if debug \<and> \<not> log2_assertion inp then Inl Assertion_Failed else log2_loop inp 0)"

section \<open>Properties\<close>

subsection \<open>Word arithmetic of the bit index\<close>

lemma unat_succ:
  fixes b mx :: "'a::len word"
  assumes "b < mx"
  shows "unat (b + 1) = unat b + 1"
proof -
  from assms have "unat b < unat mx"
    by (simp add: word_less_nat_alt)
  moreover have "unat mx < 2 ^ LENGTH('a)"
    by (rule unsigned_less)
  ultimately have "unat b + 1 < 2 ^ LENGTH('a)"
    by linarith
  then have "unat b + unat (1 :: 'a word) < 2 ^ LENGTH('a)"
    by simp
  then show ?thesis
    by (simp add: unat_add_lem [THEN iffD1])
qed

lemma unat_exp:
  assumes "n < LENGTH('w::len)"
  shows "unat ((2 :: 'w word) ^ n) = 2 ^ n"
proof -
  have "(2 :: 'w word) ^ n = of_nat (2 ^ n)"
    by simp
  then have "unat ((2 :: 'w word) ^ n) = 2 ^ n mod 2 ^ LENGTH('w)"
    by (simp only: unat_of_nat)
  with assms show ?thesis
    by simp
qed

lemma scast_nonneg_int:
  fixes b :: c_int
  assumes "32 \<le> LENGTH('w::len)" and "unat b < 2 ^ 31"
  shows "unat (scast b :: 'w word) = unat b"
proof -
  from assms(2) have "take_bit 31 (unat b) = unat b"
    by (simp add: take_bit_nat_eq_self)
  then have "bit (unat b) 31 \<longleftrightarrow> bit (take_bit 31 (unat b)) 31"
    by simp
  then have top: "\<not> bit b 31"
    by (simp add: bit_take_bit_iff bit_unsigned_iff)
  have "(scast b :: 'w word) = ucast b"
    by (rule bit_word_eqI) (auto simp add: bit_word_scast_iff bit_word_ucast_iff top
        dest: bit_imp_le_length)
  moreover have "unat (ucast b :: 'w word) = unat b"
  proof -
    have "(2 :: nat) ^ 31 \<le> 2 ^ LENGTH('w)"
      using assms(1) by (intro power_increasing) simp_all
    with assms(2) have "unat b < 2 ^ LENGTH('w)"
      by (rule order_less_le_trans)
    then show ?thesis
      by (simp add: unsigned_ucast_eq take_bit_nat_eq_self)
  qed
  ultimately show ?thesis
    by simp
qed

lemma scast_int_inj:
  fixes b c :: c_int
  assumes "32 \<le> LENGTH('w::len)" and "(scast b :: 'w word) = scast c"
  shows "b = c"
proof -
  from assms(1) have up: "is_up (scast :: c_int \<Rightarrow> 'w word)"
    by (simp add: is_up)
  have "b = scast (scast b :: 'w word)"
    using up by (simp add: scast_up_scast_id)
  also have "\<dots> = scast (scast c :: 'w word)"
    by (simp add: assms(2))
  also have "\<dots> = c"
    using up by (simp add: scast_up_scast_id)
  finally show ?thesis .
qed

lemma bits_per_ulong_power:
  assumes "LENGTH('w::len) = 32 \<or> LENGTH('w) = 64"
  obtains n where "n < LENGTH('w)" and "LENGTH('w) = 2 ^ n"
    and "(METAL_BITS_PER_ULONG :: 'w word) = 2 ^ n"
proof -
  from assms consider "LENGTH('w) = 32" | "LENGTH('w) = 64"
    by blast
  then show thesis
  proof cases
    case 1
    then have "5 < LENGTH('w)" "LENGTH('w) = 2 ^ 5" "(METAL_BITS_PER_ULONG :: 'w word) = 2 ^ 5"
      by (simp_all add: METAL_BITS_PER_ULONG_def sizeof_ulong_def)
    then show thesis
      by (rule that)
  next
    case 2
    then have "6 < LENGTH('w)" "LENGTH('w) = 2 ^ 6" "(METAL_BITS_PER_ULONG :: 'w word) = 2 ^ 6"
      by (simp_all add: METAL_BITS_PER_ULONG_def sizeof_ulong_def)
    then show thesis
      by (rule that)
  qed
qed

lemma unat_bits_per_ulong:
  assumes "LENGTH('w::len) = 32 \<or> LENGTH('w) = 64"
  shows "unat (METAL_BITS_PER_ULONG :: 'w word) = LENGTH('w)"
  using assms by (auto simp add: METAL_BITS_PER_ULONG_def sizeof_ulong_def)

lemma and_low_bits_eq_mod:
  fixes x :: "'w::len word"
  shows "x AND (2 ^ n - 1) = x mod 2 ^ n"
  by (simp add: mask_eq_exp_minus_1 [symmetric] take_bit_eq_mask [symmetric] take_bit_eq_mod)

lemma div_and_low_bits_inj:
  fixes x y :: "'w::len word"
  assumes "x div 2 ^ n = y div 2 ^ n" and "x AND (2 ^ n - 1) = y AND (2 ^ n - 1)"
  shows "x = y"
proof -
  have "x = x div 2 ^ n * 2 ^ n + x mod 2 ^ n"
    by (rule div_mult_mod_eq [symmetric])
  also have "\<dots> = y div 2 ^ n * 2 ^ n + y mod 2 ^ n"
    using assms by (simp add: and_low_bits_eq_mod)
  also have "\<dots> = y"
    by (rule div_mult_mod_eq)
  finally show ?thesis .
qed

lemma metal_bit_disjoint:
  fixes p q :: "'w::len word"
  assumes "p \<noteq> q"
  shows "metal_bit p AND metal_bit q = 0"
proof -
  from assms have "unat p \<noteq> unat q"
    by (simp add: word_unat_eq_iff)
  have "\<not> bit (metal_bit p AND metal_bit q) k" for k
  proof
    assume "bit (metal_bit p AND metal_bit q) k"
    then have "k = unat p" and "k = unat q"
      by (auto simp add: metal_bit_def bit_and_iff bit_exp_iff)
    with \<open>unat p \<noteq> unat q\<close> show False
      by simp
  qed
  then show ?thesis
    by (simp add: bit_eq_iff)
qed

lemma and_single_bit:
  fixes w :: "'w::len word"
  shows "w AND 2 ^ p = (if bit w p then 2 ^ p else 0)"
  by (rule bit_word_eqI) (auto simp add: bit_and_iff bit_exp_iff)

lemma ucast_single_bit:
  "(ucast ((2 :: 'w::len word) ^ p) :: c_int) \<noteq> 0 \<longleftrightarrow> p < LENGTH('w) \<and> p < 32"
proof -
  have "(ucast ((2 :: 'w word) ^ p) :: c_int) = (if p < LENGTH('w) then 2 ^ p else 0)"
    by (rule bit_word_eqI) (auto simp add: bit_word_ucast_iff bit_exp_iff)
  then show ?thesis
    by (auto simp add: not_le)
qed

lemma word_of_bit_nonneg:
  fixes bitmap :: "'w::len word list"
  assumes "LENGTH('w) = 32 \<or> LENGTH('w) = 64" and "unat b < 2 ^ 31"
  shows "word_of_bit bitmap b = unat b div LENGTH('w)"
proof -
  from assms(1) have wide: "32 \<le> LENGTH('w)"
    by auto
  from assms(1) have "unat (METAL_BITS_PER_ULONG :: 'w word) = LENGTH('w)"
    by (rule unat_bits_per_ulong)
  then show ?thesis
    by (simp add: word_of_bit_def unat_div scast_nonneg_int [OF wide assms(2)])
qed

lemma mask_of_bit_nonneg:
  fixes bitmap :: "'w::len word list"
  assumes "LENGTH('w) = 32 \<or> LENGTH('w) = 64" and "unat b < 2 ^ 31"
  shows "mask_of_bit bitmap b = 2 ^ (unat b mod LENGTH('w))"
proof -
  from assms(1) have wide: "32 \<le> LENGTH('w)"
    by auto
  from assms(1) obtain n where n: "LENGTH('w) = 2 ^ n" "(METAL_BITS_PER_ULONG :: 'w word) = 2 ^ n"
    and less: "n < LENGTH('w)"
    by (rule bits_per_ulong_power)
  from less have "unat ((2 :: 'w word) ^ n) = 2 ^ n"
    by (rule unat_exp)
  then have "unat ((scast b :: 'w word) AND (2 ^ n - 1)) = unat b mod 2 ^ n"
    by (simp add: and_low_bits_eq_mod unat_mod scast_nonneg_int [OF wide assms(2)])
  then show ?thesis
    by (simp add: mask_of_bit_def metal_bit_def n)
qed

lemma in_storage_nonneg:
  fixes bitmap :: "'w::len word list"
  assumes "LENGTH('w) = 32 \<or> LENGTH('w) = 64" and "unat b < 2 ^ 31"
  shows "in_storage bitmap b \<longleftrightarrow> unat b div LENGTH('w) < length bitmap"
proof -
  from assms(1) have wide: "32 \<le> LENGTH('w)"
    by auto
  from assms(1) have "unat (METAL_BITS_PER_ULONG :: 'w word) = LENGTH('w)"
    by (auto simp add: METAL_BITS_PER_ULONG_def sizeof_ulong_def)
  then show ?thesis
    by (simp add: in_storage_def word_of_bit_def unat_div scast_nonneg_int [OF wide assms(2)])
qed

subsection \<open>The word count\<close>

lemma ceiling_div_nat:
  fixes n w :: nat
  assumes "0 < w"
  shows "nat \<lceil>real n / real w\<rceil> = (n + w - 1) div w"
proof -
  define q where "q = (n + w - 1) div w"
  have "n + w - 1 < q * w + w"
    unfolding q_def using assms dividend_less_div_times [of w "n + w - 1"] by simp
  with assms have "n \<le> q * w"
    by linarith
  then have "real n \<le> real (q * w)"
    by (simp only: of_nat_le_iff)
  then have le: "real n / real w \<le> real q"
    using assms by (simp add: pos_divide_le_eq)
  have "q * w \<le> n + w - 1"
    unfolding q_def by simp
  with assms have "q * w < n + w"
    by linarith
  then have "real (q * w) < real (n + w)"
    by (simp only: of_nat_less_iff)
  then have "(real q - 1) * real w < real n"
    by (simp add: algebra_simps)
  then have gt: "real q - 1 < real n / real w"
    using assms by (simp add: pos_less_divide_eq)
  from gt le have "\<lceil>real n / real w\<rceil> = int q"
    by (intro ceiling_unique) simp_all
  then show ?thesis
    by (simp add: q_def)
qed

text \<open>
  C8, as amended. For every capacity \<open>n\<close> for which \<open>n + W - 1\<close> is still a value of
  the unsigned type, the word count \<^verbatim>\<open>metal_bitmap_longs(n)\<close> is \<open>\<lceil>n / W\<rceil>\<close>, where
  \<open>W\<close> is \<^verbatim>\<open>METAL_BITS_PER_ULONG\<close>, the width of \<^verbatim>\<open>unsigned long\<close>.
\<close>

theorem bitmap_longs_is_ceiling:
  fixes n :: "'w::len word"
  assumes "LENGTH('w) = 32 \<or> LENGTH('w) = 64"
    and "unat n + LENGTH('w) - 1 < 2 ^ LENGTH('w)"
  shows "unat (METAL_BITS_PER_ULONG :: 'w word) = LENGTH('w) \<and>
    unat (metal_bitmap_longs n)
      = nat \<lceil>real (unat n) / real (unat (METAL_BITS_PER_ULONG :: 'w word))\<rceil>"
proof -
  define W :: "'w word" where "W = METAL_BITS_PER_ULONG"
  from assms(1) have W: "unat W = LENGTH('w)"
    unfolding W_def by (rule unat_bits_per_ulong)
  then have "W \<noteq> 0"
    by auto
  then have "unat (W - 1) = unat W - 1"
    by (rule unat_minus_one)
  moreover from assms(1) have pos: "1 \<le> LENGTH('w)"
    by auto
  ultimately have "unat n + unat (W - 1) < 2 ^ LENGTH('w)"
    using W assms(2) by simp
  then have "unat (n + (W - 1)) = unat n + unat (W - 1)"
    by (simp add: unat_add_lem [THEN iffD1])
  with W pos \<open>unat (W - 1) = unat W - 1\<close> have "unat (n + W - 1) = unat n + LENGTH('w) - 1"
    by (simp add: add_diff_eq)
  then have "unat (metal_bitmap_longs n) = (unat n + LENGTH('w) - 1) div LENGTH('w)"
    by (simp add: metal_bitmap_longs_def metal_div_round_up_def metal_div_round_down_def
        unat_div W W_def [symmetric])
  also have "\<dots> = nat \<lceil>real (unat n) / real LENGTH('w)\<rceil>"
    by (rule ceiling_div_nat [symmetric]) simp
  finally show ?thesis
    using W by (simp add: W_def)
qed

theorem bitmap_longs_is_ceiling_witness:
  "(LENGTH(64) = 32 \<or> LENGTH(64) = 64) \<and>
   unat (65 :: 64 word) + LENGTH(64) - 1 < 2 ^ LENGTH(64) \<and>
   metal_bitmap_longs (65 :: 64 word) = 2 \<and>
   nat \<lceil>real (unat (65 :: 64 word)) / real (unat (METAL_BITS_PER_ULONG :: 64 word))\<rceil> = 2"
proof -
  have platform: "LENGTH(64) = 32 \<or> LENGTH(64) = 64"
    by simp
  have fits: "unat (65 :: 64 word) + LENGTH(64) - 1 < 2 ^ LENGTH(64)"
    by simp
  have val: "metal_bitmap_longs (65 :: 64 word) = 2"
    by code_simp
  from bitmap_longs_is_ceiling [OF platform fits] val
  have "nat \<lceil>real (unat (65 :: 64 word)) / real (unat (METAL_BITS_PER_ULONG :: 64 word))\<rceil> = 2"
    by simp
  with platform fits val show ?thesis
    by blast
qed

text \<open>
  Past that capacity the sum \<open>n + W - 1\<close> wraps around: for the largest 64-bit value
  the macro gives 0 words, where \<open>\<lceil>n / 64\<rceil>\<close> is \<open>2 ^ 58\<close>.
\<close>

theorem bitmap_longs_wraps:
  "metal_bitmap_longs (18446744073709551615 :: 64 word) = 0 \<and>
   nat \<lceil>real (unat (18446744073709551615 :: 64 word))
          / real (unat (METAL_BITS_PER_ULONG :: 64 word))\<rceil> = 288230376151711744"
proof -
  have "metal_bitmap_longs (18446744073709551615 :: 64 word) = 0"
    by code_simp
  moreover have "unat (METAL_BITS_PER_ULONG :: 64 word) = 64"
    by (simp add: METAL_BITS_PER_ULONG_def sizeof_ulong_def)
  moreover have "nat \<lceil>real (unat (18446744073709551615 :: 64 word)) / real 64\<rceil>
      = 288230376151711744"
    by (simp add: ceiling_div_nat)
  ultimately show ?thesis
    by simp
qed

subsection \<open>Setting, clearing and testing one bit\<close>

text \<open>
  \<^verbatim>\<open>metal_bitmap_is_bit_set\<close> returns the masked word as an \<^verbatim>\<open>int\<close>. The mask of a bit
  at position \<open>p\<close> of its word is \<open>2 ^ p\<close>; as an \<^verbatim>\<open>int\<close> it is zero once \<open>p\<close> is 32 or
  more. So the bit just set is reported set exactly when its position in the word is
  below 32: always with a 32-bit \<^verbatim>\<open>unsigned long\<close>, for the lower half of each word
  with a 64-bit one. A bit just cleared is reported clear on both.
\<close>

lemma is_set_iff_stored:
  fixes bitmap :: "'w::len word list"
  assumes "LENGTH('w) = 32 \<or> LENGTH('w) = 64" and "unat b < 2 ^ 31"
    and "in_storage bitmap b"
  shows "is_set bitmap b \<longleftrightarrow>
    bit (bitmap ! (unat b div LENGTH('w))) (unat b mod LENGTH('w)) \<and> unat b mod LENGTH('w) < 32"
proof -
  define p where "p = unat b mod LENGTH('w)"
  have p: "p < LENGTH('w)"
    by (simp add: p_def)
  have m: "mask_of_bit bitmap b = 2 ^ p"
    unfolding p_def using assms(1,2) by (rule mask_of_bit_nonneg)
  have i: "word_of_bit bitmap b = unat b div LENGTH('w)"
    using assms(1,2) by (rule word_of_bit_nonneg)
  from assms(3) have "metal_bitmap_is_bit_set bitmap b
      = Inr (ucast (if bit (bitmap ! (unat b div LENGTH('w))) p then (2 :: 'w word) ^ p else 0))"
    by (simp add: metal_bitmap_is_bit_set_def m i and_single_bit)
  with p show ?thesis
    using ucast_single_bit [of p, where 'w = 'w] by (auto simp add: is_set_def p_def)
qed

lemma set_bit_then_is_set:
  fixes bitmap :: "'w::len word list"
  assumes "LENGTH('w) = 32 \<or> LENGTH('w) = 64" and "unat b < 2 ^ 31"
    and "in_storage bitmap b"
  shows "\<exists>bitmap'. metal_bitmap_set_bit bitmap b = Inr bitmap' \<and>
    (is_set bitmap' b \<longleftrightarrow> unat b mod LENGTH('w) < 32) \<and>
    (is_clear bitmap' b \<longleftrightarrow> \<not> unat b mod LENGTH('w) < 32)"
proof -
  define p where "p = unat b mod LENGTH('w)"
  have p: "p < LENGTH('w)"
    by (simp add: p_def)
  have m: "mask_of_bit bitmap b = 2 ^ p"
    unfolding p_def using assms(1,2) by (rule mask_of_bit_nonneg)
  define bitmap' where "bitmap' = bitmap[word_of_bit bitmap b :=
    (bitmap ! word_of_bit bitmap b) OR mask_of_bit bitmap b]"
  have set: "metal_bitmap_set_bit bitmap b = Inr bitmap'"
    using assms(3) by (simp add: metal_bitmap_set_bit_def bitmap'_def)
  have same: "word_of_bit bitmap' b = word_of_bit bitmap b"
    "mask_of_bit bitmap' b = mask_of_bit bitmap b"
    by (simp_all add: word_of_bit_def mask_of_bit_def)
  have "length bitmap' = length bitmap"
    by (simp add: bitmap'_def)
  with assms(3) have sto: "in_storage bitmap' b"
    by (simp add: in_storage_def same)
  from assms(3) have "(bitmap' ! word_of_bit bitmap b) AND 2 ^ p = 2 ^ p"
    by (simp add: bitmap'_def in_storage_def m bit.conj_disj_distrib2)
  then have val: "metal_bitmap_is_bit_set bitmap' b = Inr (ucast ((2 :: 'w word) ^ p))"
    using sto by (simp add: metal_bitmap_is_bit_set_def same m)
  from val p have "is_set bitmap' b \<longleftrightarrow> p < 32"
    by (simp add: is_set_def ucast_single_bit)
  moreover from val p have "is_clear bitmap' b \<longleftrightarrow> \<not> p < 32"
    using ucast_single_bit [of p, where 'w = 'w]
    by (auto simp add: is_clear_def metal_bitmap_is_bit_clear_def)
  ultimately show ?thesis
    using set by (simp add: p_def)
qed

lemma clear_bit_then_is_clear:
  fixes bitmap :: "'w::len word list"
  assumes "in_storage bitmap b"
  shows "\<exists>bitmap'. metal_bitmap_clear_bit bitmap b = Inr bitmap' \<and>
    \<not> is_set bitmap' b \<and> is_clear bitmap' b"
proof -
  define bitmap' where "bitmap' = bitmap[word_of_bit bitmap b :=
    (bitmap ! word_of_bit bitmap b) AND NOT (mask_of_bit bitmap b)]"
  have clr: "metal_bitmap_clear_bit bitmap b = Inr bitmap'"
    using assms by (simp add: metal_bitmap_clear_bit_def bitmap'_def)
  have same: "word_of_bit bitmap' b = word_of_bit bitmap b"
    "mask_of_bit bitmap' b = mask_of_bit bitmap b"
    by (simp_all add: word_of_bit_def mask_of_bit_def)
  have "length bitmap' = length bitmap"
    by (simp add: bitmap'_def)
  with assms have sto: "in_storage bitmap' b"
    by (simp add: in_storage_def same)
  from assms have "(bitmap' ! word_of_bit bitmap b) AND mask_of_bit bitmap b = 0"
    by (simp add: bitmap'_def in_storage_def and.assoc)
  then have "metal_bitmap_is_bit_set bitmap' b = Inr 0"
    using sto by (simp add: metal_bitmap_is_bit_set_def same)
  then have "\<not> is_set bitmap' b" and "is_clear bitmap' b"
    by (simp_all add: is_set_def is_clear_def metal_bitmap_is_bit_clear_def)
  with clr show ?thesis
    by blast
qed

lemma is_clear_iff_not_is_set:
  "in_storage bitmap b \<Longrightarrow> is_clear bitmap b \<longleftrightarrow> \<not> is_set bitmap b"
  by (simp add: is_clear_def is_set_def metal_bitmap_is_bit_clear_def metal_bitmap_is_bit_set_def)

text \<open>
  C6 says that after set(bm, b), is-set(bm, b) is true and is-clear(bm, b) is false,
  for every bit index in the storage. With a 64-bit \<^verbatim>\<open>unsigned long\<close>, one zeroed word
  and \<open>b = 32\<close>, the bit is stored (the word becomes \<open>2 ^ 32\<close>), yet is-set returns 0 and
  is-clear returns 1.
\<close>

theorem set_bit_32_not_reported:
  "in_storage [0 :: 64 word] 32 \<and>
   metal_bitmap_set_bit [0 :: 64 word] 32 = Inr [4294967296] \<and>
   metal_bitmap_is_bit_set [4294967296 :: 64 word] 32 = Inr 0 \<and>
   metal_bitmap_is_bit_clear [4294967296 :: 64 word] 32 = Inr 1"
  by code_simp

lemma stored_bit_iff_masked:
  fixes bitmap :: "'w::len word list"
  assumes "LENGTH('w) = 32 \<or> LENGTH('w) = 64" and "unat b < 2 ^ 31"
    and "in_storage bitmap b"
  shows "stored_bit bitmap (unat b) \<longleftrightarrow>
    (bitmap ! word_of_bit bitmap b) AND mask_of_bit bitmap b \<noteq> 0"
proof -
  define p where "p = unat b mod LENGTH('w)"
  have "p < LENGTH('w)"
    by (simp add: p_def)
  then have nz: "(2 :: 'w word) ^ p \<noteq> 0"
    by (simp only: exp_eq_zero_iff)
  have m: "mask_of_bit bitmap b = 2 ^ p"
    unfolding p_def using assms(1,2) by (rule mask_of_bit_nonneg)
  have i: "word_of_bit bitmap b = unat b div LENGTH('w)"
    using assms(1,2) by (rule word_of_bit_nonneg)
  from assms(3) have "unat b div LENGTH('w) < length bitmap"
    by (simp add: in_storage_def i)
  with nz show ?thesis
    by (simp add: stored_bit_def m i and_single_bit p_def)
qed

lemma is_set_iff_stored_bit:
  fixes bitmap :: "'w::len word list"
  assumes "LENGTH('w) = 32 \<or> LENGTH('w) = 64" and "unat b < 2 ^ 31"
    and "in_storage bitmap b"
  shows "is_set bitmap b \<longleftrightarrow> stored_bit bitmap (unat b) \<and> unat b mod LENGTH('w) < 32"
proof -
  from assms have "unat b div LENGTH('w) < length bitmap"
    by (simp add: in_storage_nonneg)
  with is_set_iff_stored [OF assms] show ?thesis
    by (simp add: stored_bit_def)
qed

text \<open>
  C7: setting bit \<open>b\<close> leaves every other bit \<open>c\<close> of the storage as it was: the word
  of \<open>c\<close> still has the same bit under the mask of \<open>c\<close>, so the stored bit of \<open>c\<close> is
  unchanged, at every position of a 32-bit and of a 64-bit word. With it the \<^verbatim>\<open>int\<close> that
  \<^verbatim>\<open>metal_bitmap_is_bit_set\<close> returns for \<open>c\<close> is unchanged as well.
\<close>

theorem set_bit_keeps_other_bits:
  fixes bitmap :: "'w::len word list"
  assumes "LENGTH('w) = 32 \<or> LENGTH('w) = 64"
    and "in_storage bitmap b" and "in_storage bitmap c" and "c \<noteq> b"
  shows "\<exists>bitmap'. metal_bitmap_set_bit bitmap b = Inr bitmap' \<and>
     length bitmap' = length bitmap \<and>
     (bitmap' ! word_of_bit bitmap c) AND mask_of_bit bitmap c
       = (bitmap ! word_of_bit bitmap c) AND mask_of_bit bitmap c \<and>
     (unat c < 2 ^ 31 \<longrightarrow> stored_bit bitmap' (unat c) = stored_bit bitmap (unat c)) \<and>
     metal_bitmap_is_bit_set bitmap' c = metal_bitmap_is_bit_set bitmap c"
proof -
  from assms(1) obtain n where n: "(METAL_BITS_PER_ULONG :: 'w word) = 2 ^ n"
    by (rule bits_per_ulong_power)
  from assms(1) have wide: "32 \<le> LENGTH('w)"
    by auto
  define bitmap' where "bitmap' = bitmap[word_of_bit bitmap b :=
    (bitmap ! word_of_bit bitmap b) OR mask_of_bit bitmap b]"
  have set: "metal_bitmap_set_bit bitmap b = Inr bitmap'"
    using assms(2) by (simp add: metal_bitmap_set_bit_def bitmap'_def)
  have len: "length bitmap' = length bitmap"
    by (simp add: bitmap'_def)
  have idx: "word_of_bit bitmap' c = word_of_bit bitmap c"
    and msk: "mask_of_bit bitmap' c = mask_of_bit bitmap c"
    by (simp_all add: word_of_bit_def mask_of_bit_def)
  have sto: "in_storage bitmap' c"
    using assms(3) by (simp add: in_storage_def idx len)
  have masked: "(bitmap' ! word_of_bit bitmap c) AND mask_of_bit bitmap c =
        (bitmap ! word_of_bit bitmap c) AND mask_of_bit bitmap c"
  proof (cases "word_of_bit bitmap c = word_of_bit bitmap b")
    case False
    then show ?thesis
      by (simp add: bitmap'_def)
  next
    case True
    then have "(scast c :: 'w word) div 2 ^ n = scast b div 2 ^ n"
      by (simp add: word_of_bit_def n word_unat_eq_iff)
    moreover have "(scast c :: 'w word) \<noteq> scast b"
      using scast_int_inj [OF wide] assms(4) by blast
    ultimately have "(scast c :: 'w word) AND (2 ^ n - 1) \<noteq> scast b AND (2 ^ n - 1)"
      using div_and_low_bits_inj by blast
    then have "mask_of_bit bitmap b AND mask_of_bit bitmap c = 0"
      by (simp add: mask_of_bit_def n metal_bit_disjoint)
    moreover from True assms(2) have "bitmap' ! word_of_bit bitmap c =
        (bitmap ! word_of_bit bitmap c) OR mask_of_bit bitmap b"
      by (simp add: bitmap'_def in_storage_def)
    ultimately show ?thesis
      by (simp add: bit.conj_disj_distrib2)
  qed
  then have reported: "metal_bitmap_is_bit_set bitmap' c = metal_bitmap_is_bit_set bitmap c"
    using sto assms(3) by (simp add: metal_bitmap_is_bit_set_def idx msk)
  have "stored_bit bitmap' (unat c) = stored_bit bitmap (unat c)" if "unat c < 2 ^ 31"
    using stored_bit_iff_masked [OF assms(1) that sto]
      stored_bit_iff_masked [OF assms(1) that assms(3)] masked
    by (simp add: idx msk)
  with set len masked reported show ?thesis
    by blast
qed

theorem set_bit_keeps_other_bits_witness:
  "(LENGTH(64) = 32 \<or> LENGTH(64) = 64) \<and> in_storage [1099511627776 :: 64 word] 3 \<and>
   in_storage [1099511627776 :: 64 word] 40 \<and> (40 :: c_int) \<noteq> 3 \<and>
   metal_bitmap_set_bit [1099511627776 :: 64 word] 3 = Inr [1099511627784] \<and>
   stored_bit [1099511627776 :: 64 word] 40 \<and> stored_bit [1099511627784 :: 64 word] 40"
proof -
  have platform: "LENGTH(64) = 32 \<or> LENGTH(64) = 64"
    by simp
  have b: "in_storage [1099511627776 :: 64 word] 3"
    and c: "in_storage [1099511627776 :: 64 word] 40"
    by code_simp+
  have neq: "(40 :: c_int) \<noteq> 3"
    by simp
  have val: "metal_bitmap_set_bit [1099511627776 :: 64 word] 3 = Inr [1099511627784]"
    by code_simp
  have before: "stored_bit [1099511627776 :: 64 word] 40"
    by (simp add: stored_bit_def bit_iff_odd)
  from set_bit_keeps_other_bits [OF platform b c neq] val
  have "stored_bit [1099511627784 :: 64 word] (unat (40 :: c_int))
      = stored_bit [1099511627776 :: 64 word] (unat (40 :: c_int))"
    by simp
  with before have "stored_bit [1099511627784 :: 64 word] 40"
    by simp
  with platform b c neq val before show ?thesis
    by blast
qed

subsection \<open>Scanning for the next set or clear bit\<close>

lemma in_storage_is_bit_set:
  "in_storage bitmap b \<Longrightarrow> \<exists>v. metal_bitmap_is_bit_set bitmap b = Inr v"
  by (simp add: metal_bitmap_is_bit_set_def)

lemma next_set_bit_loop_scan:
  fixes bitmap :: "'w::len word list"
  assumes "b \<le> mx" and "\<forall>i. b \<le> i \<and> i < mx \<longrightarrow> in_storage bitmap i"
  shows "\<exists>r. next_set_bit_loop bitmap b mx = Inr r \<and> b \<le> r \<and> r \<le> mx \<and>
             (r < mx \<longrightarrow> is_set bitmap r) \<and> (\<forall>i. b \<le> i \<and> i < r \<longrightarrow> \<not> is_set bitmap i)"
  using assms
proof (induction bitmap b mx rule: next_set_bit_loop.induct)
  case (1 bitmap b mx)
  show ?case
  proof (cases "b < mx")
    case False
    with "1.prems" have "b = mx"
      by simp
    then show ?thesis
      by (subst next_set_bit_loop.simps) auto
  next
    case less: True
    with "1.prems" have "in_storage bitmap b"
      by simp
    then obtain v where v: "metal_bitmap_is_bit_set bitmap b = Inr v"
      using in_storage_is_bit_set by blast
    show ?thesis
    proof (cases "v = 0")
      case False
      with v have "is_set bitmap b"
        by (simp add: is_set_def)
      moreover from less v False have "next_set_bit_loop bitmap b mx = Inr b"
        by (subst next_set_bit_loop.simps) simp
      ultimately show ?thesis
        using less by auto
    next
      case zero: True
      from less have suc: "unat (b + 1) = unat b + 1"
        by (rule unat_succ)
      from less suc have le: "b + 1 \<le> mx"
        by (simp add: word_le_nat_alt word_less_nat_alt)
      from suc "1.prems" have st: "\<forall>i. b + 1 \<le> i \<and> i < mx \<longrightarrow> in_storage bitmap i"
        by (simp add: word_le_nat_alt)
      from "1.IH" [OF less v zero le st] obtain r where
        r: "next_set_bit_loop bitmap (b + 1) mx = Inr r" "b + 1 \<le> r" "r \<le> mx"
          "r < mx \<longrightarrow> is_set bitmap r" "\<forall>i. b + 1 \<le> i \<and> i < r \<longrightarrow> \<not> is_set bitmap i"
        by blast
      from less v zero r(1) have "next_set_bit_loop bitmap b mx = Inr r"
        by (subst next_set_bit_loop.simps) simp
      moreover from suc r(2) have "b \<le> r"
        by (simp add: word_le_nat_alt)
      moreover have "\<not> is_set bitmap i" if "b \<le> i" "i < r" for i
      proof (cases "i = b")
        case True
        with v zero show ?thesis
          by (simp add: is_set_def)
      next
        case False
        with that(1) have "unat b < unat i"
          by (simp add: word_le_nat_alt word_unat_eq_iff)
        with suc have "b + 1 \<le> i"
          by (simp add: word_le_nat_alt)
        with r(5) that(2) show ?thesis
          by blast
      qed
      ultimately show ?thesis
        using r(3,4) by blast
    qed
  qed
qed

text \<open>
  C4, as amended. Take \<open>start \<le> max\<close>, with \<open>max\<close> at most \<open>2 ^ 31\<close> (the indexes are
  values of \<^verbatim>\<open>int\<close>), and every index of \<open>[start, max)\<close> in the storage and at a position
  below 32 of its word, which is every position when \<^verbatim>\<open>unsigned long\<close> is 32 bits wide.
  Then next-set-bit returns an index \<open>r\<close> of \<open>[start, max]\<close>; \<open>r\<close> is \<open>max\<close> exactly when no
  bit of \<open>[start, max)\<close> is stored as 1, and otherwise \<open>r\<close> is the smallest index of
  \<open>[start, max)\<close> whose bit is stored as 1.
\<close>

theorem next_set_bit_first_stored:
  fixes bitmap :: "'w::len word list"
  assumes "LENGTH('w) = 32 \<or> LENGTH('w) = 64"
    and "start \<le> mx" and "unat mx \<le> 2 ^ 31"
    and "\<forall>i. start \<le> i \<and> i < mx \<longrightarrow> in_storage bitmap i \<and> unat i mod LENGTH('w) < 32"
  shows "\<exists>r. metal_bitmap_next_set_bit bitmap start mx = Inr r \<and> start \<le> r \<and> r \<le> mx \<and>
    (r = mx \<longleftrightarrow> (\<forall>i. start \<le> i \<and> i < mx \<longrightarrow> \<not> stored_bit bitmap (unat i))) \<and>
    (r \<noteq> mx \<longrightarrow> stored_bit bitmap (unat r) \<and>
       (\<forall>i. start \<le> i \<and> i < r \<longrightarrow> \<not> stored_bit bitmap (unat i)))"
proof -
  have stored: "is_set bitmap i \<longleftrightarrow> stored_bit bitmap (unat i)"
    if "start \<le> i" "i < mx" for i
  proof -
    from that(2) assms(3) have "unat i < 2 ^ 31"
      by (simp add: word_less_nat_alt)
    moreover from that assms(4) have "in_storage bitmap i" "unat i mod LENGTH('w) < 32"
      by simp_all
    ultimately show ?thesis
      using assms(1) by (simp add: is_set_iff_stored_bit)
  qed
  from assms(4) have sto: "\<forall>i. start \<le> i \<and> i < mx \<longrightarrow> in_storage bitmap i"
    by simp
  from next_set_bit_loop_scan [OF assms(2) sto] obtain r where
    r: "next_set_bit_loop bitmap start mx = Inr r" "start \<le> r" "r \<le> mx"
      "r < mx \<longrightarrow> is_set bitmap r" "\<forall>i. start \<le> i \<and> i < r \<longrightarrow> \<not> is_set bitmap i"
    by blast
  have found: "stored_bit bitmap (unat r)" if "r \<noteq> mx"
  proof -
    from that r(3) have "r < mx"
      by simp
    with r(2,4) show ?thesis
      using stored [of r] by blast
  qed
  have before: "\<not> stored_bit bitmap (unat i)" if "start \<le> i" "i < r" for i
  proof -
    from that(2) r(3) have "i < mx"
      by simp
    with that(1) have "is_set bitmap i \<longleftrightarrow> stored_bit bitmap (unat i)"
      by (rule stored)
    with that r(5) show ?thesis
      by blast
  qed
  have "r = mx \<longleftrightarrow> (\<forall>i. start \<le> i \<and> i < mx \<longrightarrow> \<not> stored_bit bitmap (unat i))"
  proof
    assume "r = mx"
    with before show "\<forall>i. start \<le> i \<and> i < mx \<longrightarrow> \<not> stored_bit bitmap (unat i)"
      by simp
  next
    assume none: "\<forall>i. start \<le> i \<and> i < mx \<longrightarrow> \<not> stored_bit bitmap (unat i)"
    show "r = mx"
    proof (rule ccontr)
      assume neq: "r \<noteq> mx"
      with r(3) have "r < mx"
        by simp
      with r(2) none found [OF neq] show False
        by blast
    qed
  qed
  with found before r(1,2,3) show ?thesis
    by (auto simp add: metal_bitmap_next_set_bit_def)
qed

theorem next_set_bit_first_stored_witness:
  "(LENGTH(64) = 32 \<or> LENGTH(64) = 64) \<and> (3 :: c_uint) \<le> 10 \<and> unat (10 :: c_uint) \<le> 2 ^ 31 \<and>
   metal_bitmap_next_set_bit [548 :: 64 word] 3 10 = Inr 5 \<and>
   stored_bit [548 :: 64 word] 5 \<and> \<not> stored_bit [548 :: 64 word] 3 \<and>
   \<not> stored_bit [548 :: 64 word] 4"
proof -
  have platform: "LENGTH(64) = 32 \<or> LENGTH(64) = 64"
    by simp
  have le: "(3 :: c_uint) \<le> 10" and int: "unat (10 :: c_uint) \<le> 2 ^ 31"
    by simp_all
  have low: "\<forall>i. 3 \<le> i \<and> i < 10 \<longrightarrow>
      in_storage [548 :: 64 word] i \<and> unat i mod LENGTH(64) < 32"
  proof (intro allI impI)
    fix i :: c_int
    assume "3 \<le> i \<and> i < 10"
    then have "unat i < 10"
      by (simp add: word_less_nat_alt)
    then show "in_storage [548 :: 64 word] i \<and> unat i mod LENGTH(64) < 32"
      by (simp add: in_storage_nonneg)
  qed
  have val: "metal_bitmap_next_set_bit [548 :: 64 word] 3 10 = Inr 5"
    by code_simp
  from next_set_bit_first_stored [OF platform le int low] val
  have "stored_bit [548 :: 64 word] (unat (5 :: c_uint))"
    and none: "\<forall>i :: c_uint. 3 \<le> i \<and> i < 5 \<longrightarrow> \<not> stored_bit [548 :: 64 word] (unat i)"
    by auto
  moreover have "\<not> stored_bit [548 :: 64 word] (unat (3 :: c_uint))"
    using none [THEN spec, of 3] by simp
  moreover have "\<not> stored_bit [548 :: 64 word] (unat (4 :: c_uint))"
    using none [THEN spec, of 4] by simp
  ultimately show ?thesis
    using platform le int val by simp
qed

text \<open>
  Without \<open>start \<le> max\<close> the loop is not entered and \<open>start\<close> comes back, not \<open>max\<close>:
  here no bit of the bitmap is set, and the result is 5 with the bound 3.
\<close>

theorem next_set_bit_start_past_max:
  "metal_bitmap_next_set_bit [0 :: 64 word] 5 3 = Inr 5 \<and> (5 :: c_uint) \<noteq> 3"
  by code_simp

lemma in_storage_is_bit_clear:
  "in_storage bitmap b \<Longrightarrow> \<exists>v. metal_bitmap_is_bit_clear bitmap b = Inr v"
  by (simp add: metal_bitmap_is_bit_clear_def metal_bitmap_is_bit_set_def)

lemma next_clear_bit_loop_scan:
  fixes bitmap :: "'w::len word list"
  assumes "b \<le> mx" and "\<forall>i. b \<le> i \<and> i < mx \<longrightarrow> in_storage bitmap i"
  shows "\<exists>r. next_clear_bit_loop bitmap b mx = Inr r \<and> b \<le> r \<and> r \<le> mx \<and>
             (r < mx \<longrightarrow> is_clear bitmap r) \<and> (\<forall>i. b \<le> i \<and> i < r \<longrightarrow> \<not> is_clear bitmap i)"
  using assms
proof (induction bitmap b mx rule: next_clear_bit_loop.induct)
  case (1 bitmap b mx)
  show ?case
  proof (cases "b < mx")
    case False
    with "1.prems" have "b = mx"
      by simp
    then show ?thesis
      by (subst next_clear_bit_loop.simps) auto
  next
    case less: True
    with "1.prems" have "in_storage bitmap b"
      by simp
    then obtain v where v: "metal_bitmap_is_bit_clear bitmap b = Inr v"
      using in_storage_is_bit_clear by blast
    show ?thesis
    proof (cases "v = 0")
      case False
      with v have "is_clear bitmap b"
        by (simp add: is_clear_def)
      moreover from less v False have "next_clear_bit_loop bitmap b mx = Inr b"
        by (subst next_clear_bit_loop.simps) simp
      ultimately show ?thesis
        using less by auto
    next
      case zero: True
      from less have suc: "unat (b + 1) = unat b + 1"
        by (rule unat_succ)
      from less suc have le: "b + 1 \<le> mx"
        by (simp add: word_le_nat_alt word_less_nat_alt)
      from suc "1.prems" have st: "\<forall>i. b + 1 \<le> i \<and> i < mx \<longrightarrow> in_storage bitmap i"
        by (simp add: word_le_nat_alt)
      from "1.IH" [OF less v zero le st] obtain r where
        r: "next_clear_bit_loop bitmap (b + 1) mx = Inr r" "b + 1 \<le> r" "r \<le> mx"
          "r < mx \<longrightarrow> is_clear bitmap r" "\<forall>i. b + 1 \<le> i \<and> i < r \<longrightarrow> \<not> is_clear bitmap i"
        by blast
      from less v zero r(1) have "next_clear_bit_loop bitmap b mx = Inr r"
        by (subst next_clear_bit_loop.simps) simp
      moreover from suc r(2) have "b \<le> r"
        by (simp add: word_le_nat_alt)
      moreover have "\<not> is_clear bitmap i" if "b \<le> i" "i < r" for i
      proof (cases "i = b")
        case True
        with v zero show ?thesis
          by (simp add: is_clear_def)
      next
        case False
        with that(1) have "unat b < unat i"
          by (simp add: word_le_nat_alt word_unat_eq_iff)
        with suc have "b + 1 \<le> i"
          by (simp add: word_le_nat_alt)
        with r(5) that(2) show ?thesis
          by blast
      qed
      ultimately show ?thesis
        using r(3,4) by blast
    qed
  qed
qed

text \<open>
  C5, as amended. next-clear-bit is the dual of next-set-bit, with the bits stored as 0
  in the place of the bits stored as 1. Take \<open>start \<le> max\<close>, with \<open>max\<close> at most \<open>2 ^ 31\<close>,
  and every index of \<open>[start, max)\<close> in the storage and at a position below 32 of its
  word. Then next-clear-bit returns an index \<open>r\<close> of \<open>[start, max]\<close>; \<open>r\<close> is \<open>max\<close> exactly
  when no bit of \<open>[start, max)\<close> is stored as 0, and otherwise \<open>r\<close> is the smallest index
  of \<open>[start, max)\<close> whose bit is stored as 0.
\<close>

theorem next_clear_bit_first_stored:
  fixes bitmap :: "'w::len word list"
  assumes "LENGTH('w) = 32 \<or> LENGTH('w) = 64"
    and "start \<le> mx" and "unat mx \<le> 2 ^ 31"
    and "\<forall>i. start \<le> i \<and> i < mx \<longrightarrow> in_storage bitmap i \<and> unat i mod LENGTH('w) < 32"
  shows "\<exists>r. metal_bitmap_next_clear_bit bitmap start mx = Inr r \<and> start \<le> r \<and> r \<le> mx \<and>
    (r = mx \<longleftrightarrow> (\<forall>i. start \<le> i \<and> i < mx \<longrightarrow> stored_bit bitmap (unat i))) \<and>
    (r \<noteq> mx \<longrightarrow> \<not> stored_bit bitmap (unat r) \<and>
       (\<forall>i. start \<le> i \<and> i < r \<longrightarrow> stored_bit bitmap (unat i)))"
proof -
  have stored: "is_clear bitmap i \<longleftrightarrow> \<not> stored_bit bitmap (unat i)"
    if "start \<le> i" "i < mx" for i
  proof -
    from that(2) assms(3) have "unat i < 2 ^ 31"
      by (simp add: word_less_nat_alt)
    moreover from that assms(4) have "in_storage bitmap i" "unat i mod LENGTH('w) < 32"
      by simp_all
    ultimately show ?thesis
      using assms(1) by (simp add: is_clear_iff_not_is_set is_set_iff_stored_bit)
  qed
  from assms(4) have sto: "\<forall>i. start \<le> i \<and> i < mx \<longrightarrow> in_storage bitmap i"
    by simp
  from next_clear_bit_loop_scan [OF assms(2) sto] obtain r where
    r: "next_clear_bit_loop bitmap start mx = Inr r" "start \<le> r" "r \<le> mx"
      "r < mx \<longrightarrow> is_clear bitmap r" "\<forall>i. start \<le> i \<and> i < r \<longrightarrow> \<not> is_clear bitmap i"
    by blast
  have found: "\<not> stored_bit bitmap (unat r)" if "r \<noteq> mx"
  proof -
    from that r(3) have "r < mx"
      by simp
    with r(2,4) show ?thesis
      using stored [of r] by blast
  qed
  have before: "stored_bit bitmap (unat i)" if "start \<le> i" "i < r" for i
  proof -
    from that(2) r(3) have "i < mx"
      by simp
    with that(1) have "is_clear bitmap i \<longleftrightarrow> \<not> stored_bit bitmap (unat i)"
      by (rule stored)
    with that r(5) show ?thesis
      by blast
  qed
  have "r = mx \<longleftrightarrow> (\<forall>i. start \<le> i \<and> i < mx \<longrightarrow> stored_bit bitmap (unat i))"
  proof
    assume "r = mx"
    with before show "\<forall>i. start \<le> i \<and> i < mx \<longrightarrow> stored_bit bitmap (unat i)"
      by simp
  next
    assume all: "\<forall>i. start \<le> i \<and> i < mx \<longrightarrow> stored_bit bitmap (unat i)"
    show "r = mx"
    proof (rule ccontr)
      assume neq: "r \<noteq> mx"
      with r(3) have "r < mx"
        by simp
      with r(2) all found [OF neq] show False
        by blast
    qed
  qed
  with found before r(1,2,3) show ?thesis
    by (auto simp add: metal_bitmap_next_clear_bit_def)
qed

theorem next_clear_bit_first_stored_witness:
  "(LENGTH(64) = 32 \<or> LENGTH(64) = 64) \<and> (2 :: c_uint) \<le> 10 \<and> unat (10 :: c_uint) \<le> 2 ^ 31 \<and>
   metal_bitmap_next_clear_bit [548 :: 64 word] 2 10 = Inr 3 \<and>
   \<not> stored_bit [548 :: 64 word] 3 \<and> stored_bit [548 :: 64 word] 2"
proof -
  have platform: "LENGTH(64) = 32 \<or> LENGTH(64) = 64"
    by simp
  have le: "(2 :: c_uint) \<le> 10" and int: "unat (10 :: c_uint) \<le> 2 ^ 31"
    by simp_all
  have low: "\<forall>i. 2 \<le> i \<and> i < 10 \<longrightarrow>
      in_storage [548 :: 64 word] i \<and> unat i mod LENGTH(64) < 32"
  proof (intro allI impI)
    fix i :: c_int
    assume "2 \<le> i \<and> i < 10"
    then have "unat i < 10"
      by (simp add: word_less_nat_alt)
    then show "in_storage [548 :: 64 word] i \<and> unat i mod LENGTH(64) < 32"
      by (simp add: in_storage_nonneg)
  qed
  have val: "metal_bitmap_next_clear_bit [548 :: 64 word] 2 10 = Inr 3"
    by code_simp
  from next_clear_bit_first_stored [OF platform le int low] val
  have "\<not> stored_bit [548 :: 64 word] (unat (3 :: c_uint))"
    and all: "\<forall>i :: c_uint. 2 \<le> i \<and> i < 3 \<longrightarrow> stored_bit [548 :: 64 word] (unat i)"
    by auto
  moreover have "stored_bit [548 :: 64 word] (unat (2 :: c_uint))"
    using all [THEN spec, of 2] by simp
  ultimately show ?thesis
    using platform le int val by simp
qed

text \<open>
  Without \<open>start \<le> max\<close> the result is \<open>start\<close> here too: every bit of the bitmap is
  set, and the result is 5 with the bound 3.
\<close>

theorem next_clear_bit_start_past_max:
  "metal_bitmap_next_clear_bit [- 1 :: 64 word] 5 3 = Inr 5 \<and> (5 :: c_uint) \<noteq> 3"
  by code_simp

text \<open>
  At the positions 32 to 63 of a 64-bit word both scans go wrong, since
  \<^verbatim>\<open>metal_bitmap_is_bit_set\<close> returns 0 there whatever is stored: the scan for a set bit
  passes over a stored 1, and the scan for a clear bit stops at one.
\<close>

lemma next_set_bit_passes_bit_40:
  "metal_bitmap_set_bit [0 :: 64 word] 40 = Inr [1099511627776] \<and>
   metal_bitmap_next_set_bit [1099511627776 :: 64 word] 38 42 = Inr 42"
  by code_simp

lemma next_clear_bit_stops_at_bit_32:
  "metal_bitmap_next_clear_bit [- 1 :: 64 word] 30 40 = Inr 32"
  by code_simp

subsection \<open>The iteration macros repeat the first index they find\<close>

text \<open>
  The increment of both macros scans again from \<^verbatim>\<open>bit\<close> itself, not from
  \<^verbatim>\<open>bit + 1\<close>, and a scan that starts on a matching index returns that index.
\<close>

lemma next_set_bit_at_set:
  "b < mx \<Longrightarrow> is_set bitmap b \<Longrightarrow> metal_bitmap_next_set_bit bitmap b mx = Inr b"
  by (subst metal_bitmap_next_set_bit_def, subst next_set_bit_loop.simps)
    (simp add: is_set_def split: sum.splits)

lemma next_clear_bit_at_clear:
  "b < mx \<Longrightarrow> is_clear bitmap b \<Longrightarrow> metal_bitmap_next_clear_bit bitmap b mx = Inr b"
  by (subst metal_bitmap_next_clear_bit_def, subst next_clear_bit_loop.simps)
    (simp add: is_clear_def split: sum.splits)

lemma for_each_set_bit_loop_stuck:
  "b < mx \<Longrightarrow> metal_bitmap_next_set_bit bitmap b mx = Inr b \<Longrightarrow>
   for_each_set_bit_loop fuel bitmap b mx seen = Unfinished (seen @ replicate fuel b)"
  by (induction fuel arbitrary: seen) (simp_all add: replicate_app_Cons_same)

lemma for_each_clear_bit_loop_stuck:
  "b < mx \<Longrightarrow> metal_bitmap_next_clear_bit bitmap b mx = Inr b \<Longrightarrow>
   for_each_clear_bit_loop fuel bitmap b mx seen = Unfinished (seen @ replicate fuel b)"
  by (induction fuel arbitrary: seen) (simp_all add: replicate_app_Cons_same)

lemma scan_548:
  "metal_bitmap_next_set_bit [548 :: 64 word] 0 10 = Inr 2"
  "metal_bitmap_next_set_bit [548 :: 64 word] 2 10 = Inr 2"
  "metal_bitmap_next_clear_bit [548 :: 64 word] 0 10 = Inr 0"
  by code_simp+

lemma bits_2_5_9:
  "metal_bitmap_set_bit [0 :: 64 word] 2 = Inr [4]"
  "metal_bitmap_set_bit [4 :: 64 word] 5 = Inr [36]"
  "metal_bitmap_set_bit [36 :: 64 word] 9 = Inr [548]"
  by code_simp+

text \<open>
  C1 says that for-each-set-bit over the bitmap with the bits 2, 5 and 9 set and the
  bound 10 yields 2, 5, 9 and then terminates. The macro does not: with one 64-bit
  word holding these three bits (the value 548), the body runs with \<^verbatim>\<open>bit = 2\<close>
  every time, however many executions the loop is given, and the loop is never left.
\<close>

theorem for_each_set_bit_2_5_9_repeats:
  "metal_bitmap_set_bit [0 :: 64 word] 2 = Inr [4] \<and>
   metal_bitmap_set_bit [4 :: 64 word] 5 = Inr [36] \<and>
   metal_bitmap_set_bit [36 :: 64 word] 9 = Inr [548] \<and>
   (\<forall>fuel. metal_bitmap_for_each_set_bit fuel [548 :: 64 word] 10
      = Unfinished (replicate fuel 2))"
proof -
  have "for_each_set_bit_loop fuel [548 :: 64 word] 2 10 [] = Unfinished ([] @ replicate fuel 2)"
    for fuel
    by (rule for_each_set_bit_loop_stuck) (simp_all add: scan_548)
  then show ?thesis
    by (simp add: metal_bitmap_for_each_set_bit_def scan_548 bits_2_5_9)
qed

text \<open>
  C2 says that for-each-clear-bit over the same bitmap and the bound 10 yields
  0, 1, 3, 4, 6, 7, 8 and terminates. The macro runs its body with \<^verbatim>\<open>bit = 0\<close> every
  time and is never left.
\<close>

theorem for_each_clear_bit_2_5_9_repeats:
  "\<forall>fuel. metal_bitmap_for_each_clear_bit fuel [548 :: 64 word] 10
     = Unfinished (replicate fuel 0)"
proof -
  have "for_each_clear_bit_loop fuel [548 :: 64 word] 0 10 [] = Unfinished ([] @ replicate fuel 0)"
    for fuel
    by (rule for_each_clear_bit_loop_stuck) (simp_all add: scan_548)
  then show ?thesis
    by (simp add: metal_bitmap_for_each_clear_bit_def scan_548)
qed

lemma next_set_bit_loop_found:
  "next_set_bit_loop bitmap s mx = Inr r \<Longrightarrow> r < mx \<Longrightarrow> is_set bitmap r"
proof (induction bitmap s mx rule: next_set_bit_loop.induct)
  case (1 bitmap b mx)
  from "1.prems"(1) have unfolded:
    "(if b < mx then
        (case metal_bitmap_is_bit_set bitmap b of
           Inl e \<Rightarrow> Inl e
         | Inr v \<Rightarrow> if v = 0 then next_set_bit_loop bitmap (b + 1) mx else Inr b)
      else Inr b) = Inr r"
    by (subst (asm) next_set_bit_loop.simps)
  show ?case
  proof (cases "b < mx")
    case False
    with unfolded "1.prems"(2) show ?thesis
      by simp
  next
    case less: True
    show ?thesis
    proof (cases "metal_bitmap_is_bit_set bitmap b")
      case (Inl e)
      with unfolded less show ?thesis
        by simp
    next
      case (Inr v)
      show ?thesis
      proof (cases "v = 0")
        case True
        with unfolded less Inr have "next_set_bit_loop bitmap (b + 1) mx = Inr r"
          by simp
        with "1.IH" [OF less Inr True] "1.prems"(2) show ?thesis
          by simp
      next
        case False
        with unfolded less Inr have "r = b"
          by simp
        with Inr False show ?thesis
          by (simp add: is_set_def)
      qed
    qed
  qed
qed

lemma for_each_set_bit_loop_done:
  "\<not> b < mx \<Longrightarrow> for_each_set_bit_loop fuel bitmap b mx seen = Finished seen"
  by (cases fuel) simp_all

lemma for_each_set_bit_finishes:
  "(\<exists>fuel seen. metal_bitmap_for_each_set_bit fuel bitmap mx = Finished seen) \<longleftrightarrow>
   (\<exists>r. metal_bitmap_next_set_bit bitmap 0 mx = Inr r \<and> mx \<le> r)"
proof (cases "metal_bitmap_next_set_bit bitmap 0 mx")
  case (Inl e)
  then show ?thesis
    by (simp add: metal_bitmap_for_each_set_bit_def)
next
  case (Inr r)
  show ?thesis
  proof (cases "r < mx")
    case True
    with Inr have "is_set bitmap r"
      by (simp add: metal_bitmap_next_set_bit_def next_set_bit_loop_found)
    with True have "metal_bitmap_next_set_bit bitmap r mx = Inr r"
      by (rule next_set_bit_at_set)
    with True have "for_each_set_bit_loop fuel bitmap r mx [] = Unfinished ([] @ replicate fuel r)"
      for fuel
      by (rule for_each_set_bit_loop_stuck)
    with Inr True show ?thesis
      by (simp add: metal_bitmap_for_each_set_bit_def)
  next
    case False
    with Inr show ?thesis
      by (simp add: metal_bitmap_for_each_set_bit_def for_each_set_bit_loop_done)
  qed
qed

lemma next_clear_bit_loop_found:
  "next_clear_bit_loop bitmap s mx = Inr r \<Longrightarrow> r < mx \<Longrightarrow> is_clear bitmap r"
proof (induction bitmap s mx rule: next_clear_bit_loop.induct)
  case (1 bitmap b mx)
  from "1.prems"(1) have unfolded:
    "(if b < mx then
        (case metal_bitmap_is_bit_clear bitmap b of
           Inl e \<Rightarrow> Inl e
         | Inr v \<Rightarrow> if v = 0 then next_clear_bit_loop bitmap (b + 1) mx else Inr b)
      else Inr b) = Inr r"
    by (subst (asm) next_clear_bit_loop.simps)
  show ?case
  proof (cases "b < mx")
    case False
    with unfolded "1.prems"(2) show ?thesis
      by simp
  next
    case less: True
    show ?thesis
    proof (cases "metal_bitmap_is_bit_clear bitmap b")
      case (Inl e)
      with unfolded less show ?thesis
        by simp
    next
      case (Inr v)
      show ?thesis
      proof (cases "v = 0")
        case True
        with unfolded less Inr have "next_clear_bit_loop bitmap (b + 1) mx = Inr r"
          by simp
        with "1.IH" [OF less Inr True] "1.prems"(2) show ?thesis
          by simp
      next
        case False
        with unfolded less Inr have "r = b"
          by simp
        with Inr False show ?thesis
          by (simp add: is_clear_def)
      qed
    qed
  qed
qed

lemma for_each_clear_bit_loop_done:
  "\<not> b < mx \<Longrightarrow> for_each_clear_bit_loop fuel bitmap b mx seen = Finished seen"
  by (cases fuel) simp_all

lemma for_each_clear_bit_finishes:
  "(\<exists>fuel seen. metal_bitmap_for_each_clear_bit fuel bitmap mx = Finished seen) \<longleftrightarrow>
   (\<exists>r. metal_bitmap_next_clear_bit bitmap 0 mx = Inr r \<and> mx \<le> r)"
proof (cases "metal_bitmap_next_clear_bit bitmap 0 mx")
  case (Inl e)
  then show ?thesis
    by (simp add: metal_bitmap_for_each_clear_bit_def)
next
  case (Inr r)
  show ?thesis
  proof (cases "r < mx")
    case True
    with Inr have "is_clear bitmap r"
      by (simp add: metal_bitmap_next_clear_bit_def next_clear_bit_loop_found)
    with True have "metal_bitmap_next_clear_bit bitmap r mx = Inr r"
      by (rule next_clear_bit_at_clear)
    with True have "for_each_clear_bit_loop fuel bitmap r mx [] = Unfinished ([] @ replicate fuel r)"
      for fuel
      by (rule for_each_clear_bit_loop_stuck)
    with Inr True show ?thesis
      by (simp add: metal_bitmap_for_each_clear_bit_def)
  next
    case False
    with Inr show ?thesis
      by (simp add: metal_bitmap_for_each_clear_bit_def for_each_clear_bit_loop_done)
  qed
qed

text \<open>
  C3 says that every operation completes in bounded time. The two iteration macros do
  not. Whatever number of executions of its body the loop is given, it is left only
  when the first scan finds nothing below the bound, that is, when it returns an index
  at or past \<open>max\<close>; once the first scan has found an index, the loop goes on forever.
  The other operations do end: the operations on one bit do not loop, and the two
  scans and the loop of the logarithm are recursions with a decreasing measure.
\<close>

theorem for_each_finishes_only_when_nothing_found:
  "((\<exists>fuel seen. metal_bitmap_for_each_set_bit fuel bitmap mx = Finished seen) \<longleftrightarrow>
      (\<exists>r. metal_bitmap_next_set_bit bitmap 0 mx = Inr r \<and> mx \<le> r)) \<and>
   ((\<exists>fuel seen. metal_bitmap_for_each_clear_bit fuel bitmap mx = Finished seen) \<longleftrightarrow>
      (\<exists>r. metal_bitmap_next_clear_bit bitmap 0 mx = Inr r \<and> mx \<le> r))"
  using for_each_set_bit_finishes for_each_clear_bit_finishes by blast

subsection \<open>The logarithm\<close>

lemma log2_assertion_power:
  "log2_assertion ((2 :: 'w::len word) ^ k)"
proof -
  have "\<not> bit ((2 :: 'w word) ^ k AND mask k) j" for j
    by (auto simp add: bit_and_iff bit_exp_iff bit_mask_iff)
  then have "(2 :: 'w word) ^ k AND mask k = 0"
    by (simp add: bit_eq_iff)
  then show ?thesis
    by (simp add: log2_assertion_def mask_eq_exp_minus_1)
qed

lemma log2_loop_power:
  assumes "k < LENGTH('w::len)" and "r \<le> k"
  shows "log2_loop ((2 :: 'w word) ^ k) (of_nat r) = Inr (of_nat k)"
  using assms(2)
proof (induction "k - r" arbitrary: r)
  case 0
  then have "r = k"
    by simp
  with assms(1) have "unat (of_nat k :: 'w word) = k"
    by (simp add: unat_of_nat less_trans [OF _ less_exp])
  with assms(1) \<open>r = k\<close> show ?case
    by (subst log2_loop.simps) simp
next
  case (Suc d)
  then have less: "r < k" and next_le: "Suc r \<le> k" and d: "d = k - Suc r"
    by simp_all
  from less assms(1) have "r < 2 ^ LENGTH('w)"
    using less_exp [of "LENGTH('w)"] by linarith
  then have r: "unat (of_nat r :: 'w word) = r"
    by (simp add: unat_of_nat)
  from less assms(1) have "(2 :: 'w word) ^ r < 2 ^ k"
    by (simp add: word_less_nat_alt unat_exp)
  with r less assms(1) have "log2_loop ((2 :: 'w word) ^ k) (of_nat r)
      = log2_loop (2 ^ k) (of_nat r + 1)"
    by (subst log2_loop.simps) simp
  also have "\<dots> = log2_loop (2 ^ k) (of_nat (Suc r))"
    by (simp add: add.commute)
  also have "\<dots> = Inr (of_nat k)"
    using d next_le by (rule Suc.hyps(1))
  finally show ?case .
qed

lemma metal_log2_power:
  assumes "k < LENGTH('w::len)"
  shows "metal_log2 debug ((2 :: 'w word) ^ k) = Inr (of_nat k)"
  using log2_loop_power [OF assms, of 0]
  by (simp add: metal_log2_def log2_assertion_power)

lemma nat_and_pred_zero:
  fixes n :: nat
  assumes "0 < n" and "n AND (n - 1) = 0"
  shows "\<exists>k. n = 2 ^ k"
  using assms
proof (induction n rule: less_induct)
  case (less n)
  show ?case
  proof (cases "even n")
    case True
    then obtain m where m: "n = 2 * m"
      by (auto elim: evenE)
    with less.prems(1) have pos: "0 < m"
      by simp
    then have pred: "n - 1 = 2 * (m - 1) + 1"
      using m by simp
    have "n AND (n - 1) = 2 * (m AND (m - 1))"
      unfolding pred unfolding m
      by (subst and_rec) simp
    with less.prems(2) have "m AND (m - 1) = 0"
      by simp
    moreover from m pos have "m < n"
      by simp
    ultimately obtain k where "m = 2 ^ k"
      using less.IH pos by blast
    with m have "n = 2 ^ Suc k"
      by simp
    then show ?thesis
      by blast
  next
    case False
    then obtain m where m: "n = 2 * m + 1"
      by (auto elim: oddE)
    have "n AND (n - 1) = 2 * m"
      unfolding m by (subst and_rec) simp
    with less.prems(2) have "m = 0"
      by simp
    with m have "n = 2 ^ 0"
      by simp
    then show ?thesis
      by blast
  qed
qed

lemma is_power_of_two_iff:
  "is_power_of_two (v :: 'w::len word) \<longleftrightarrow> (\<exists>k < LENGTH('w). v = 2 ^ k)"
  by (auto simp add: is_power_of_two_def)

lemma log2_assertion_iff:
  fixes v :: "'w::len word"
  shows "log2_assertion v \<longleftrightarrow> v = 0 \<or> is_power_of_two v"
proof
  assume "v = 0 \<or> is_power_of_two v"
  then show "log2_assertion v"
    by (auto simp add: is_power_of_two_iff log2_assertion_power) (simp add: log2_assertion_def)
next
  assume a: "log2_assertion v"
  show "v = 0 \<or> is_power_of_two v"
  proof (cases "v = 0")
    case True
    then show ?thesis
      by simp
  next
    case False
    then have pos: "0 < unat v"
      by (simp add: unat_gt_0)
    from False have "unat (v - 1) = unat v - 1"
      by (rule unat_minus_one)
    moreover from a have "unat (v AND (v - 1)) = 0"
      by (simp add: log2_assertion_def)
    ultimately have "unat v AND (unat v - 1) = 0"
      by (simp add: unsigned_and_eq)
    with pos obtain k where k: "unat v = 2 ^ k"
      using nat_and_pred_zero by blast
    have "k < LENGTH('w)"
    proof (rule ccontr)
      assume "\<not> k < LENGTH('w)"
      then have "(2 :: nat) ^ LENGTH('w) \<le> 2 ^ k"
        by (intro power_increasing) simp_all
      with k have "2 ^ LENGTH('w) \<le> unat v"
        by simp
      moreover have "unat v < 2 ^ LENGTH('w)"
        by (rule unsigned_less)
      ultimately show False
        by simp
    qed
    with k have "unat v = unat ((2 :: 'w word) ^ k)"
      by (simp add: unat_exp)
    then have "v = 2 ^ k"
      by (simp only: word_unat_eq_iff)
    with \<open>k < LENGTH('w)\<close> show ?thesis
      by (auto simp add: is_power_of_two_iff)
  qed
qed

lemma metal_log2_asserts_iff:
  fixes v :: "'w::len word"
  shows "metal_log2 True v = Inl Assertion_Failed \<longleftrightarrow> v \<noteq> 0 \<and> \<not> is_power_of_two v"
proof (cases "log2_assertion v")
  case False
  then show ?thesis
    by (simp add: metal_log2_def log2_assertion_iff)
next
  case True
  then consider "v = 0" | k where "k < LENGTH('w)" "v = 2 ^ k"
    by (auto simp add: log2_assertion_iff is_power_of_two_iff)
  then show ?thesis
  proof cases
    case 1
    then show ?thesis
      by (simp add: metal_log2_def log2_assertion_def log2_loop.simps)
  next
    case 2
    then show ?thesis
      using metal_log2_power [of k, where 'w = 'w and debug = True]
      by (auto simp add: is_power_of_two_iff)
  qed
qed

text \<open>
  C9, as amended. For every power of two that the type holds, \<open>2 ^ k\<close> with \<open>k\<close> below
  the width, \<^verbatim>\<open>metal_log2\<close> returns \<open>k\<close>, with the assertion compiled in or not; so 1, 2
  and 1024 give 0, 1 and 10. In a debug build the assertion fails for exactly the
  values that are neither 0 nor a power of two, 3 among them.
\<close>

theorem metal_log2_power_of_two:
  assumes "LENGTH('w::len) = 32 \<or> LENGTH('w) = 64"
  shows "(\<forall>k < LENGTH('w). metal_log2 debug ((2 :: 'w word) ^ k) = Inr (of_nat k)) \<and>
    metal_log2 debug (1 :: 'w word) = Inr 0 \<and>
    metal_log2 debug (2 :: 'w word) = Inr 1 \<and>
    metal_log2 debug (1024 :: 'w word) = Inr 10 \<and>
    (\<forall>v :: 'w word. metal_log2 True v = Inl Assertion_Failed
        \<longleftrightarrow> v \<noteq> 0 \<and> \<not> is_power_of_two v) \<and>
    metal_log2 True (3 :: 'w word) = Inl Assertion_Failed"
proof -
  from assms have wide: "10 < LENGTH('w)"
    by auto
  have "metal_log2 debug ((2 :: 'w word) ^ 0) = Inr (of_nat 0)"
    by (rule metal_log2_power) simp
  then have one: "metal_log2 debug (1 :: 'w word) = Inr 0"
    by simp
  have "metal_log2 debug ((2 :: 'w word) ^ 1) = Inr (of_nat 1)"
    by (rule metal_log2_power) (use wide in simp)
  then have two: "metal_log2 debug (2 :: 'w word) = Inr 1"
    by simp
  have "metal_log2 debug ((2 :: 'w word) ^ 10) = Inr (of_nat 10)"
    using wide by (rule metal_log2_power)
  then have big: "metal_log2 debug (1024 :: 'w word) = Inr 10"
    by simp
  have "(3 :: 'w word) AND (3 - 1) = 2 ^ 1"
    by simp
  moreover from wide have "(2 :: 'w word) ^ 1 \<noteq> 0"
    by (simp only: exp_eq_zero_iff)
  ultimately have "\<not> log2_assertion (3 :: 'w word)"
    by (simp add: log2_assertion_def)
  then have three: "metal_log2 True (3 :: 'w word) = Inl Assertion_Failed"
    by (simp add: metal_log2_def)
  from one two big three show ?thesis
    by (simp add: metal_log2_power metal_log2_asserts_iff)
qed

theorem metal_log2_power_of_two_witness:
  "(LENGTH(64) = 32 \<or> LENGTH(64) = 64) \<and> (40 :: nat) < LENGTH(64) \<and>
   metal_log2 False ((2 :: 64 word) ^ 40) = Inr 40 \<and>
   metal_log2 True (1024 :: 64 word) = Inr 10 \<and>
   metal_log2 True (3 :: 64 word) = Inl Assertion_Failed \<and>
   (6 :: 64 word) \<noteq> 0 \<and> \<not> is_power_of_two (6 :: 64 word) \<and>
   metal_log2 True (6 :: 64 word) = Inl Assertion_Failed"
proof -
  have platform: "LENGTH(64) = 32 \<or> LENGTH(64) = 64"
    by simp
  have less: "(40 :: nat) < LENGTH(64)"
    by simp
  have "\<not> log2_assertion (6 :: 64 word)"
    by (simp add: log2_assertion_def)
  then have six: "(6 :: 64 word) \<noteq> 0" "\<not> is_power_of_two (6 :: 64 word)"
    by (simp_all add: log2_assertion_iff)
  from metal_log2_power_of_two [OF platform, where debug = False] less
  have "metal_log2 False ((2 :: 64 word) ^ 40) = Inr (of_nat 40)"
    by blast
  moreover from metal_log2_power_of_two [OF platform, where debug = True] six
  have "metal_log2 True (1024 :: 64 word) = Inr 10"
    and "metal_log2 True (3 :: 64 word) = Inl Assertion_Failed"
    and "metal_log2 True (6 :: 64 word) = Inl Assertion_Failed"
    by blast+
  ultimately show ?thesis
    using platform less six by simp
qed

text \<open>
  The value 0 is not a power of two, and the assertion does not fail for it.
\<close>

theorem metal_log2_zero_not_refused:
  "\<not> is_power_of_two (0 :: 64 word) \<and> metal_log2 True (0 :: 64 word) = Inr 0"
proof -
  have "(0 :: 64 word) \<noteq> 2 ^ k" if "k < 64" for k
  proof
    assume "(0 :: 64 word) = 2 ^ k"
    then have "(2 :: 64 word) ^ k = 0"
      by simp
    then have "LENGTH(64) \<le> k"
      by (simp only: exp_eq_zero_iff)
    with that show False
      by simp
  qed
  then have "\<not> is_power_of_two (0 :: 64 word)"
    by (auto simp add: is_power_of_two_iff)
  moreover have "metal_log2 True (0 :: 64 word) = Inr 0"
    by (simp add: metal_log2_def log2_assertion_def log2_loop.simps)
  ultimately show ?thesis
    by simp
qed

text \<open>
  C10: the input 0 is not a power of two, yet \<^verbatim>\<open>(0 & (0 - 1)) == 0\<close> holds, so the
  assertion of \<^verbatim>\<open>metal_log2\<close> lets it through, in a debug build too, and the function
  returns 0.
\<close>

theorem metal_log2_zero:
  "log2_assertion (0 :: 'w::len word) \<and> metal_log2 True (0 :: 'w word) = Inr 0"
  by (simp add: log2_assertion_def metal_log2_def log2_loop.simps)

end
